theory Spec2Isabelle
  imports Main
begin

section \<open>Arrays\<close>

text \<open>
  A numpy array is modelled by its shape and its elements in C (row-major) order, the
  order in which \<^verbatim>\<open>ndarray.copy()\<close> lays them out. An array is well formed when
  it holds exactly as many elements as its shape announces. An axis of length 0 is
  allowed, as in numpy; the array then has no element.
\<close>

record 'a ndarray =
  shape :: "nat list"
  data :: "'a list"

definition ndim :: "'a ndarray \<Rightarrow> nat" where
  "ndim m = length (shape m)"

definition wf_array :: "'a ndarray \<Rightarrow> bool" where
  "wf_array m \<longleftrightarrow> length (data m) = prod_list (shape m)"

text \<open>Every failure of the code under study is a Python \<^verbatim>\<open>ValueError\<close>
  (numpy's \<^verbatim>\<open>AxisError\<close> is a subclass of it).\<close>

datatype error = ValueError

text \<open>\<open>chop n xs\<close> cuts \<open>xs\<close> into consecutive blocks of \<open>n\<close> elements.\<close>

fun chop :: "nat \<Rightarrow> 'a list \<Rightarrow> 'a list list" where
  "chop n xs = (if n = 0 \<or> xs = [] then [] else take n xs # chop n (drop n xs))"

declare chop.simps [simp del]

section \<open>The numpy operations the transforms call\<close>

text \<open>
  \<^verbatim>\<open>m[..., ::-1, ...]\<close> on axis \<open>k\<close> (counted from the front): the array is a
  sequence of blocks of \<open>shape ! k\<close> sub-blocks, each sub-block holding the elements of
  the axes behind \<open>k\<close>; the order of the sub-blocks of every block is reversed.
\<close>

definition flip_axis :: "nat \<Rightarrow> 'a ndarray \<Rightarrow> 'a ndarray" where
  "flip_axis k m =
     (let inner = prod_list (drop (Suc k) (shape m));
          len = shape m ! k
      in m\<lparr>data := concat (map (\<lambda>blk. concat (rev (chop inner blk)))
                               (chop (len * inner) (data m)))\<rparr>)"

text \<open>\<^verbatim>\<open>np.flip(m, axis)\<close> for an integer axis: the axis is checked against the
  number of dimensions, a negative axis counts from the end.\<close>

definition np_flip :: "'a ndarray \<Rightarrow> int \<Rightarrow> error + 'a ndarray" where
  "np_flip m axis =
     (let n = int (ndim m)
      in if axis < - n \<or> n \<le> axis then Inl ValueError
         else Inr (flip_axis (nat (if axis < 0 then axis + n else axis)) m))"

text \<open>
  \<^verbatim>\<open>np.transpose(m, axes_list)\<close> for the permutation that \<^verbatim>\<open>np.rot90\<close> builds
  from \<^verbatim>\<open>axes=(-2, -1)\<close>: the identity with the last two axes exchanged. Every
  plane of the last two axes (\<open>h\<close> rows of \<open>w\<close> elements) is transposed.
\<close>

definition transpose_last2 :: "'a ndarray \<Rightarrow> 'a ndarray" where
  "transpose_last2 m =
     (let n = ndim m;
          h = shape m ! (n - 2);
          w = shape m ! (n - 1)
      in \<lparr>shape = take (n - 2) (shape m) @ [w, h],
          data = concat (map (\<lambda>p. concat (transpose (chop w p)))
                             (chop (h * w) (data m)))\<rparr>)"

text \<open>
  \<^verbatim>\<open>np.rot90(m, k, axes=(-2, -1))\<close>. With these axes numpy raises
  \<^verbatim>\<open>ValueError\<close> when \<open>|(-2) - (-1)| = ndim\<close> ("Axes must be different") and when
  an axis is out of range, that is for every array of fewer than two dimensions. Then
  \<^verbatim>\<open>k %= 4\<close> (Python's remainder, never negative for a positive modulus, as is
  \<open>mod\<close> on \<open>int\<close>) and
  \<^item> \<open>k = 0\<close>: the array itself;
  \<^item> \<open>k = 2\<close>: \<^verbatim>\<open>flip(flip(m, axes[0]), axes[1])\<close>;
  \<^item> \<open>k = 1\<close>: \<^verbatim>\<open>transpose(flip(m, axes[1]), axes_list)\<close>;
  \<^item> \<open>k = 3\<close>: \<^verbatim>\<open>flip(transpose(m, axes_list), axes[1])\<close>.
\<close>

definition rot90 :: "'a ndarray \<Rightarrow> int \<Rightarrow> error + 'a ndarray" where
  "rot90 m k =
     (if ndim m = 1 then Inl ValueError
      else if ndim m < 2 then Inl ValueError
      else let k' = k mod 4
           in if k' = 0 then Inr m
              else if k' = 2 then
                (case np_flip m (- 2) of Inl e \<Rightarrow> Inl e | Inr f \<Rightarrow> np_flip f (- 1))
              else if k' = 1 then
                (case np_flip m (- 1) of Inl e \<Rightarrow> Inl e | Inr f \<Rightarrow> Inr (transpose_last2 f))
              else np_flip (transpose_last2 m) (- 1))"

section \<open>The transforms\<close>

text \<open>
  \<^verbatim>\<open>normalize\<close> and \<^verbatim>\<open>denormalize\<close> (lines 27 and 52) are elementwise
  arithmetic in the floating-point or fixed-width integer type of the array, with its
  rounding, overflow and wrap-around; no exact number type of HOL computes what they
  compute, and they are left out of this theory.
\<close>

text \<open>\<^verbatim>\<open>_flip_and_rotate\<close>: the rotation first, then the flip of the last axis
  when \<open>flip_state\<close> is 1; the final \<^verbatim>\<open>copy()\<close> is the identity on values.\<close>

definition flip_and_rotate :: "'a ndarray \<Rightarrow> int \<Rightarrow> int \<Rightarrow> error + 'a ndarray" where
  "flip_and_rotate img rotate_state flip_state =
     (case rot90 img rotate_state of
        Inl e \<Rightarrow> Inl e
      | Inr rotated \<Rightarrow> if flip_state = 1 then np_flip rotated (- 1) else Inr rotated)"

text \<open>
  The random number generator of numpy is not part of the program: it is a parameter.
  \<open>default_rng\<close> gives the state of a generator freshly built from a seed (numpy
  rejects some seeds with a \<^verbatim>\<open>ValueError\<close>, a negative one for instance),
  \<open>integers low high\<close> draws a number from a generator state and gives the next state.
\<close>

record 'g numpy_random =
  default_rng :: "int \<Rightarrow> error + 'g"
  integers :: "int \<Rightarrow> int \<Rightarrow> 'g \<Rightarrow> int \<times> 'g"

text \<open>
  A \<^verbatim>\<open>Generator\<close> is a mutable object. The memory of the running process holds
  the generator objects created so far; the address of an object is its position.
  \<^verbatim>\<open>np.random.default_rng(seed)\<close> allocates a new object,
  \<^verbatim>\<open>rng.integers(low, high)\<close> reads the object at \<open>rng\<close> and overwrites it with
  its next state (\<open>rng\<close> is always an address that \<open>new_generator\<close> returned).
\<close>

type_synonym 'g memory = "'g list"

definition new_generator ::
  "'g numpy_random \<Rightarrow> int \<Rightarrow> 'g memory \<Rightarrow> (error + nat) \<times> 'g memory" where
  "new_generator np seed s =
     (case default_rng np seed of
        Inl e \<Rightarrow> (Inl e, s)
      | Inr g \<Rightarrow> (Inr (length s), s @ [g]))"

definition draw :: "'g numpy_random \<Rightarrow> nat \<Rightarrow> int \<Rightarrow> int \<Rightarrow> 'g memory \<Rightarrow> int \<times> 'g memory" where
  "draw np rng low high s =
     (case integers np low high (s ! rng) of (v, g) \<Rightarrow> (v, s[rng := g]))"

text \<open>Lines 104 to 106 of \<^verbatim>\<open>augment_batch\<close>: a fresh generator from the seed, then
  \<open>rotate_state\<close>, then \<open>flip_state\<close> from the same object.\<close>

definition draw_states ::
  "'g numpy_random \<Rightarrow> int \<Rightarrow> 'g memory \<Rightarrow> (error + int \<times> int) \<times> 'g memory" where
  "draw_states np seed s =
     (case new_generator np seed s of
        (Inl e, s0) \<Rightarrow> (Inl e, s0)
      | (Inr rng, s0) \<Rightarrow>
          (case draw np rng 0 4 s0 of
             (rotate_state, s1) \<Rightarrow>
               (case draw np rng 0 2 s1 of
                  (flip_state, s2) \<Rightarrow> (Inr (rotate_state, flip_state), s2))))"

text \<open>\<^verbatim>\<open>augment_batch\<close>: the patch is transformed first, then the target, with the
  two states drawn; an exception leaves at the first failing step.\<close>

definition augment_batch ::
  "'g numpy_random \<Rightarrow> 'a ndarray \<Rightarrow> 'b ndarray \<Rightarrow> int \<Rightarrow> 'g memory
     \<Rightarrow> (error + 'a ndarray \<times> 'b ndarray) \<times> 'g memory" where
  "augment_batch np patch target seed s =
     (case draw_states np seed s of
        (Inl e, s') \<Rightarrow> (Inl e, s')
      | (Inr (rotate_state, flip_state), s') \<Rightarrow>
          (case flip_and_rotate patch rotate_state flip_state of
             Inl e \<Rightarrow> (Inl e, s')
           | Inr p \<Rightarrow>
               (case flip_and_rotate target rotate_state flip_state of
                  Inl e \<Rightarrow> (Inl e, s')
                | Inr t \<Rightarrow> (Inr (p, t), s'))))"

text \<open>\<open>n\<close> calls with the same arguments, one after the other in the same process.\<close>

fun repeated_calls ::
  "'g numpy_random \<Rightarrow> 'a ndarray \<Rightarrow> 'b ndarray \<Rightarrow> int \<Rightarrow> nat \<Rightarrow> 'g memory
     \<Rightarrow> (error + 'a ndarray \<times> 'b ndarray) list" where
  "repeated_calls np patch target seed 0 s = []"
| "repeated_calls np patch target seed (Suc n) s =
     (case augment_batch np patch target seed s of
        (r, s') \<Rightarrow> r # repeated_calls np patch target seed n s')"

text \<open>
  A small generator with the interface above, to run \<open>augment_batch\<close> on concrete
  inputs. It is not numpy's PCG64: it reads the seed as a mixed-radix number. Seed 1
  draws \<open>rotate_state = 1\<close> and \<open>flip_state = 0\<close>.
\<close>

definition digit_rng :: "nat numpy_random" where
  "digit_rng =
     \<lparr>default_rng = (\<lambda>seed. if seed < 0 then Inl ValueError else Inr (nat seed)),
      integers = (\<lambda>low high g. (low + int g mod (high - low), g div nat (high - low)))\<rparr>"

section \<open>Planes and sequencing\<close>

text \<open>\<open>and_then\<close> chains two calls: an exception of the first one ends the chain.\<close>

definition and_then :: "error + 'a \<Rightarrow> ('a \<Rightarrow> error + 'b) \<Rightarrow> error + 'b" where
  "and_then r f = (case r of Inl e \<Rightarrow> Inl e | Inr x \<Rightarrow> f x)"

text \<open>The lengths of the last two axes, and the axes in front of them.\<close>

definition lead :: "'a ndarray \<Rightarrow> nat list" where
  "lead m = take (ndim m - 2) (shape m)"

definition height :: "'a ndarray \<Rightarrow> nat" where
  "height m = shape m ! (ndim m - 2)"

definition width :: "'a ndarray \<Rightarrow> nat" where
  "width m = shape m ! (ndim m - 1)"

text \<open>A matrix of \<open>h\<close> rows of \<open>w\<close> elements, as a list of rows.\<close>

definition is_mat :: "nat \<Rightarrow> nat \<Rightarrow> 'a list list \<Rightarrow> bool" where
  "is_mat h w M \<longleftrightarrow> length M = h \<and> (\<forall>r \<in> set M. length r = w)"

text \<open>\<open>planewise h w f d\<close> applies \<open>f\<close> to every plane of \<open>h\<close> rows of \<open>w\<close> elements
  of the element sequence \<open>d\<close>.\<close>

definition planewise ::
  "nat \<Rightarrow> nat \<Rightarrow> ('a list list \<Rightarrow> 'a list list) \<Rightarrow> 'a list \<Rightarrow> 'a list" where
  "planewise h w f d = concat (map (\<lambda>p. concat (f (chop w p))) (chop (h * w) d))"

text \<open>What \<open>flip_and_rotate\<close> does to one plane, as the proofs below establish.\<close>

definition rot_mat :: "int \<Rightarrow> 'a list list \<Rightarrow> 'a list list" where
  "rot_mat k M =
     (let k' = k mod 4
      in if k' = 0 then M
         else if k' = 2 then map rev (rev M)
         else if k' = 1 then transpose (map rev M)
         else map rev (transpose M))"

definition flip_mat :: "int \<Rightarrow> 'a list list \<Rightarrow> 'a list list" where
  "flip_mat flip_state M = (if flip_state = 1 then map rev M else M)"

text \<open>An odd number of quarter turns exchanges the last two axes.\<close>

definition turned :: "int \<Rightarrow> bool" where
  "turned k \<longleftrightarrow> k mod 4 = 1 \<or> k mod 4 = 3"

text \<open>
  The two geometric operations in words of indices, to compare the code with. A
  counter-clockwise quarter turn of a plane of \<open>h\<close> rows of \<open>w\<close> elements has \<open>w\<close> rows of
  \<open>h\<close> elements, and its element in row \<open>i\<close>, column \<open>j\<close> is the element of the plane in
  row \<open>j\<close>, column \<open>w - 1 - i\<close>: the last column becomes the first row. The mirror image
  along the last axis has in row \<open>i\<close>, column \<open>j\<close> the element of row \<open>i\<close>, column
  \<open>w - 1 - j\<close>.
\<close>

definition quarter_turn_ccw :: "nat \<Rightarrow> nat \<Rightarrow> 'a list list \<Rightarrow> 'a list list" where
  "quarter_turn_ccw h w M = map (\<lambda>i. map (\<lambda>j. M ! j ! (w - 1 - i)) [0..<h]) [0..<w]"

definition mirror_last :: "nat \<Rightarrow> nat \<Rightarrow> 'a list list \<Rightarrow> 'a list list" where
  "mirror_last h w M = map (\<lambda>i. map (\<lambda>j. M ! i ! (w - 1 - j)) [0..<w]) [0..<h]"

section \<open>Blocks of a list\<close>

lemma chop_0 [simp]: "chop 0 xs = []"
  by (simp add: chop.simps)

lemma chop_Nil [simp]: "chop n [] = []"
  by (simp add: chop.simps)

lemma chop_step: "0 < n \<Longrightarrow> xs \<noteq> [] \<Longrightarrow> chop n xs = take n xs # chop n (drop n xs)"
  by (subst chop.simps) simp

lemma chop_append:
  "0 < n \<Longrightarrow> length xs = n \<Longrightarrow> chop n (xs @ ys) = xs # chop n ys"
  by (subst chop.simps) auto

lemma chop_concat:
  "0 < n \<Longrightarrow> \<forall>xs \<in> set xss. length xs = n \<Longrightarrow> chop n (concat xss) = xss"
  by (induction xss) (simp_all add: chop_append)

lemma concat_chop: "0 < n \<Longrightarrow> concat (chop n xs) = xs"
proof (induction n xs rule: chop.induct)
  case (1 n xs)
  then show ?case by (cases "xs = []") (simp_all add: chop_step)
qed

lemma chop_blocks:
  "0 < n \<Longrightarrow> length xs = m * n \<Longrightarrow> is_mat m n (chop n xs)"
proof (induction m arbitrary: xs)
  case 0
  then show ?case by (simp add: is_mat_def)
next
  case (Suc m)
  from Suc.prems have ne: "xs \<noteq> []" by auto
  from Suc.prems have len: "length (take n xs) = n" by simp
  from Suc.prems have "length (drop n xs) = m * n" by simp
  with Suc.IH Suc.prems(1) have ih: "is_mat m n (chop n (drop n xs))" by blast
  have step: "chop n xs = take n xs # chop n (drop n xs)"
    using Suc.prems(1) ne by (rule chop_step)
  from ih len show ?case
    unfolding step is_mat_def by simp
qed

lemma length_concat_mat: "is_mat h w M \<Longrightarrow> length (concat M) = h * w"
  by (induction M arbitrary: h) (auto simp: is_mat_def)

lemma chop_singletons: "concat (rev (chop (Suc 0) xs)) = rev xs"
proof (induction xs)
  case Nil
  then show ?case by simp
next
  case (Cons x xs)
  then show ?case by (simp add: chop_step)
qed

lemma planewise_Nil [simp]: "planewise h w f [] = []"
  by (simp add: planewise_def)

lemma planewise_planes:
  assumes "0 < h" "0 < w" "length d = P * (h * w)" "p \<in> set (chop (h * w) d)"
  shows "is_mat h w (chop w p)"
proof -
  have "is_mat P (h * w) (chop (h * w) d)" using assms by (intro chop_blocks) simp_all
  then have "length p = h * w" using assms(4) by (simp add: is_mat_def)
  then show ?thesis using assms(2) by (intro chop_blocks) simp_all
qed

lemma planewise_cong:
  assumes "0 < h" "0 < w" "length d = P * (h * w)"
    and "\<And>M. is_mat h w M \<Longrightarrow> f M = g M"
  shows "planewise h w f d = planewise h w g d"
  unfolding planewise_def
  using planewise_planes [OF assms(1-3)] assms(4)
  by (intro arg_cong [where f = concat] map_cong) simp_all

lemma planewise_id:
  assumes "0 < h" "0 < w"
  shows "planewise h w (\<lambda>M. M) d = d"
  using assms by (simp add: planewise_def concat_chop)

lemma length_planewise:
  assumes "0 < h" "0 < w" "length d = P * (h * w)"
    and "\<And>M. is_mat h w M \<Longrightarrow> is_mat h' w' (f M)"
  shows "length (planewise h w f d) = P * (h' * w')"
proof -
  have len: "length (chop (h * w) d) = P"
    using chop_blocks [of "h * w" d P] assms by (simp add: is_mat_def)
  have "is_mat P (h' * w') (map (\<lambda>p. concat (f (chop w p))) (chop (h * w) d))"
    using planewise_planes [OF assms(1-3)] assms(4) len
    by (auto simp: is_mat_def [of P] length_concat_mat)
  then show ?thesis
    unfolding planewise_def by (rule length_concat_mat)
qed

lemma planewise_comp:
  assumes "0 < h" "0 < w" "0 < h'" "0 < w'" "length d = P * (h * w)"
    and "\<And>M. is_mat h w M \<Longrightarrow> is_mat h' w' (f M)"
  shows "planewise h' w' g (planewise h w f d) = planewise h w (\<lambda>M. g (f M)) d"
proof -
  let ?ps = "chop (h * w) d"
  have rows: "\<And>p. p \<in> set ?ps \<Longrightarrow> is_mat h' w' (f (chop w p))"
    using planewise_planes [OF assms(1,2,5)] assms(6) by blast
  have "chop (h' * w') (concat (map (\<lambda>p. concat (f (chop w p))) ?ps))
          = map (\<lambda>p. concat (f (chop w p))) ?ps"
    using rows assms(3,4) by (intro chop_concat) (auto simp: length_concat_mat)
  moreover have "\<And>p. p \<in> set ?ps \<Longrightarrow> chop w' (concat (f (chop w p))) = f (chop w p)"
    using rows assms(4) by (intro chop_concat) (auto simp: is_mat_def)
  ultimately show ?thesis
    by (simp add: planewise_def comp_def cong: map_cong)
qed

lemma chop_app:
  "0 < n \<Longrightarrow> length xs = k * n \<Longrightarrow> chop n (xs @ ys) = chop n xs @ chop n ys"
proof (induction k arbitrary: xs)
  case 0
  then show ?case by simp
next
  case (Suc k)
  then have ne: "xs \<noteq> []" by auto
  have "chop n (drop n xs @ ys) = chop n (drop n xs) @ chop n ys"
    using Suc by simp
  then show ?case using Suc.prems ne by (simp add: chop_step)
qed

lemma chop_chop:
  "0 < h \<Longrightarrow> 0 < w \<Longrightarrow> length d = P * (h * w) \<Longrightarrow>
     concat (map (chop w) (chop (h * w) d)) = chop w d"
proof (induction P arbitrary: d)
  case 0
  then show ?case by simp
next
  case (Suc P)
  then have ne: "d \<noteq> []" by auto
  have ih: "concat (map (chop w) (chop (h * w) (drop (h * w) d))) = chop w (drop (h * w) d)"
    using Suc by simp
  have "chop w (take (h * w) d @ drop (h * w) d)
          = chop w (take (h * w) d) @ chop w (drop (h * w) d)"
    using Suc.prems by (intro chop_app [where k = h]) simp_all
  then show ?case using Suc.prems ne ih by (simp add: chop_step)
qed

lemma concat_map_concat:
  "concat (map f (concat xss)) = concat (map (\<lambda>xs. concat (map f xs)) xss)"
  by (induction xss) simp_all

lemma rows_planewise:
  assumes "0 < h" "0 < w" "length d = P * (h * w)"
  shows "concat (map f (chop w d)) = planewise h w (map f) d"
proof -
  have "concat (map f (chop w d)) = concat (map f (concat (map (chop w) (chop (h * w) d))))"
    using assms by (simp add: chop_chop)
  also have "\<dots> = planewise h w (map f) d"
    by (simp add: planewise_def concat_map_concat comp_def)
  finally show ?thesis .
qed

lemma planes_positive:
  assumes "length d = P * (h * w)" "d \<noteq> []"
  shows "0 < h \<and> 0 < w"
proof (rule ccontr)
  assume "\<not> (0 < h \<and> 0 < w)"
  then have "h * w = 0" by auto
  with assms(1) have "length d = 0" by simp
  with assms(2) show False by simp
qed

lemma planewise_comp_gen:
  assumes "length d = P * (h * w)" "h' * w' = h * w"
    and "\<And>M. is_mat h w M \<Longrightarrow> 0 < h \<Longrightarrow> 0 < w \<Longrightarrow> is_mat h' w' (f M)"
  shows "planewise h' w' g (planewise h w f d) = planewise h w (\<lambda>M. g (f M)) d"
proof (cases "d = []")
  case True
  then show ?thesis by simp
next
  case False
  with assms(1) have pos: "0 < h" "0 < w" using planes_positive by blast+
  with assms(2) have "0 < h' * w'" by simp
  then have pos': "0 < h'" "0 < w'" by simp_all
  show ?thesis
    using pos pos' assms(1) assms(3) [OF _ pos] by (rule planewise_comp)
qed

lemma length_planewise_gen:
  assumes "length d = P * (h * w)" "h' * w' = h * w"
    and "\<And>M. is_mat h w M \<Longrightarrow> 0 < h \<Longrightarrow> 0 < w \<Longrightarrow> is_mat h' w' (f M)"
  shows "length (planewise h w f d) = P * (h' * w')"
proof (cases "d = []")
  case True
  with assms(1,2) show ?thesis by simp
next
  case False
  with assms(1) have pos: "0 < h" "0 < w" using planes_positive by blast+
  show ?thesis
    using pos assms(1) assms(3) [OF _ pos] by (rule length_planewise)
qed

lemma rows_planewise_gen:
  assumes "length d = P * (h * w)"
  shows "concat (map f (chop w d)) = planewise h w (map f) d"
proof (cases "d = []")
  case True
  then show ?thesis by simp
next
  case False
  with assms have pos: "0 < h" "0 < w" using planes_positive by blast+
  show ?thesis using pos assms by (rule rows_planewise)
qed

lemma planewise_cong_gen:
  assumes "length d = P * (h * w)"
    and "\<And>M. is_mat h w M \<Longrightarrow> 0 < h \<Longrightarrow> 0 < w \<Longrightarrow> f M = g M"
  shows "planewise h w f d = planewise h w g d"
proof (cases "d = []")
  case True
  then show ?thesis by simp
next
  case False
  with assms(1) have pos: "0 < h" "0 < w" using planes_positive by blast+
  show ?thesis
    using pos assms(1) assms(2) [OF _ pos] by (rule planewise_cong)
qed

lemma planewise_id_gen:
  assumes "length d = P * (h * w)"
  shows "planewise h w (\<lambda>M. M) d = d"
proof (cases "d = []")
  case True
  then show ?thesis by simp
next
  case False
  with assms have pos: "0 < h" "0 < w" using planes_positive by blast+
  then show ?thesis by (rule planewise_id)
qed

section \<open>Matrices as lists of rows\<close>

lemma transpose_mat:
  assumes "is_mat h w M" "0 < h"
  shows "transpose M = map (\<lambda>i. map (\<lambda>j. M ! j ! i) [0..<h]) [0..<w]"
proof -
  have "transpose M = map (\<lambda>i. map (\<lambda>j. M ! j ! i) [0..<length M]) [0..<w]"
    using assms by (intro transpose_rectangle) (auto simp: is_mat_def)
  then show ?thesis using assms by (simp add: is_mat_def)
qed

lemma is_mat_transpose: "is_mat h w M \<Longrightarrow> 0 < h \<Longrightarrow> is_mat w h (transpose M)"
  by (simp add: transpose_mat) (simp add: is_mat_def)

lemma is_mat_rev: "is_mat h w M \<Longrightarrow> is_mat h w (rev M)"
  by (simp add: is_mat_def)

lemma is_mat_map_rev: "is_mat h w M \<Longrightarrow> is_mat h w (map rev M)"
  by (auto simp: is_mat_def)

lemma transpose_transpose_mat:
  assumes "is_mat h w M" "0 < h" "0 < w"
  shows "transpose (transpose M) = M"
proof -
  have t: "is_mat w h (transpose M)" using assms by (simp add: is_mat_transpose)
  have "transpose (transpose M) = map (\<lambda>i. map (\<lambda>j. transpose M ! j ! i) [0..<w]) [0..<h]"
    using t assms(3) by (rule transpose_mat)
  also have "\<dots> = map (\<lambda>i. map (\<lambda>j. M ! i ! j) [0..<w]) [0..<h]"
    using assms by (simp add: transpose_mat)
  also have "\<dots> = M"
    using assms(1) by (auto simp: is_mat_def intro!: nth_equalityI)
  finally show ?thesis .
qed

lemma transpose_map_rev:
  assumes "is_mat h w M" "0 < h"
  shows "transpose (map rev M) = rev (transpose M)"
proof -
  have "transpose (map rev M) = map (\<lambda>i. map (\<lambda>j. map rev M ! j ! i) [0..<h]) [0..<w]"
    using assms by (intro transpose_mat is_mat_map_rev)
  also have "\<dots> = rev (map (\<lambda>i. map (\<lambda>j. M ! j ! i) [0..<h]) [0..<w])"
    using assms(1) by (auto simp: is_mat_def rev_nth intro!: nth_equalityI)
  finally show ?thesis using assms by (simp add: transpose_mat)
qed

lemma transpose_rev:
  assumes "is_mat h w M" "0 < h"
  shows "transpose (rev M) = map rev (transpose M)"
proof -
  have "transpose (rev M) = map (\<lambda>i. map (\<lambda>j. rev M ! j ! i) [0..<h]) [0..<w]"
    using assms by (intro transpose_mat is_mat_rev)
  also have "\<dots> = map rev (map (\<lambda>i. map (\<lambda>j. M ! j ! i) [0..<h]) [0..<w])"
    using assms(1) by (auto simp: is_mat_def rev_nth intro!: nth_equalityI)
  finally show ?thesis using assms by (simp add: transpose_mat)
qed

section \<open>The numpy operations on the planes of the last two axes\<close>

lemma np_flip_last:
  "np_flip \<lparr>shape = pre @ [h, w], data = d\<rparr> (- 1)
     = Inr \<lparr>shape = pre @ [h, w], data = concat (map rev (chop w d))\<rparr>"
  by (simp add: np_flip_def ndim_def flip_axis_def nat_add_distrib nth_append chop_singletons)

lemma np_flip_rows:
  "np_flip \<lparr>shape = pre @ [h, w], data = d\<rparr> (- 2)
     = Inr \<lparr>shape = pre @ [h, w], data = planewise h w rev d\<rparr>"
  by (simp add: np_flip_def ndim_def flip_axis_def nth_append planewise_def)

lemma transpose_last2_planes:
  "transpose_last2 \<lparr>shape = pre @ [h, w], data = d\<rparr>
     = \<lparr>shape = pre @ [w, h], data = planewise h w transpose d\<rparr>"
  by (simp add: transpose_last2_def ndim_def nth_append planewise_def)

section \<open>Rotation and flip, plane by plane\<close>

lemma mod4_disj: "(k::int) mod 4 = 0 \<or> k mod 4 = 1 \<or> k mod 4 = 2 \<or> k mod 4 = 3"
  by presburger

lemma mod4_cases [case_names zero one two three]:
  fixes k :: int
  assumes "k mod 4 = 0 \<Longrightarrow> Q" "k mod 4 = 1 \<Longrightarrow> Q" "k mod 4 = 2 \<Longrightarrow> Q" "k mod 4 = 3 \<Longrightarrow> Q"
  shows Q
  using mod4_disj [of k] assms by (elim disjE) simp_all

lemma rot_mat_0: "k mod 4 = 0 \<Longrightarrow> rot_mat k = (\<lambda>M. M)"
  by (simp add: fun_eq_iff rot_mat_def)

lemma rot_mat_1: "k mod 4 = 1 \<Longrightarrow> rot_mat k = (\<lambda>M. transpose (map rev M))"
  by (simp add: fun_eq_iff rot_mat_def)

lemma rot_mat_2: "k mod 4 = 2 \<Longrightarrow> rot_mat k = (\<lambda>M. map rev (rev M))"
  by (simp add: fun_eq_iff rot_mat_def)

lemma rot_mat_3: "k mod 4 = 3 \<Longrightarrow> rot_mat k = (\<lambda>M. map rev (transpose M))"
  by (simp add: fun_eq_iff rot_mat_def)

lemma is_mat_rot_mat:
  assumes "is_mat h w M" "0 < h" "0 < w"
  shows "is_mat (if turned k then w else h) (if turned k then h else w) (rot_mat k M)"
proof (rule mod4_cases [of k])
  assume 1: "k mod 4 = 0"
  then show ?thesis using assms by (simp add: rot_mat_def turned_def)
next
  assume 2: "k mod 4 = 1"
  then show ?thesis using assms
    by (simp add: rot_mat_def turned_def is_mat_transpose is_mat_map_rev)
next
  assume 3: "k mod 4 = 2"
  then show ?thesis using assms
    by (simp add: rot_mat_def turned_def is_mat_rev is_mat_map_rev)
next
  assume 4: "k mod 4 = 3"
  then show ?thesis using assms
    by (simp add: rot_mat_def turned_def is_mat_transpose is_mat_map_rev)
qed

lemma is_mat_flip_mat: "is_mat h w M \<Longrightarrow> is_mat h w (flip_mat f M)"
  by (simp add: flip_mat_def is_mat_map_rev)

lemma rot90_planes:
  assumes len: "length d = P * (h * w)"
  shows "rot90 \<lparr>shape = pre @ [h, w], data = d\<rparr> k
           = Inr \<lparr>shape = pre @ (if turned k then [w, h] else [h, w]),
                  data = planewise h w (rot_mat k) d\<rparr>"
proof (rule mod4_cases [of k])
  assume 1: "k mod 4 = 0"
  then show ?thesis
    by (simp add: rot90_def ndim_def turned_def rot_mat_0 planewise_id_gen [OF len])
next
  assume 2: "k mod 4 = 1"
  have "planewise h w transpose (concat (map rev (chop w d)))
          = planewise h w transpose (planewise h w (map rev) d)"
    by (simp add: rows_planewise_gen [OF len])
  also have "\<dots> = planewise h w (\<lambda>M. transpose (map rev M)) d"
    by (rule planewise_comp_gen [OF len]) (simp_all add: is_mat_map_rev)
  finally show ?thesis
    using 2 by (simp add: rot90_def ndim_def turned_def rot_mat_1 np_flip_last
        transpose_last2_planes)
next
  assume 3: "k mod 4 = 2"
  have l2: "length (planewise h w rev d) = P * (h * w)"
    by (rule length_planewise_gen [OF len]) (simp_all add: is_mat_rev)
  have "concat (map rev (chop w (planewise h w rev d)))
          = planewise h w (map rev) (planewise h w rev d)"
    using l2 by (rule rows_planewise_gen)
  also have "\<dots> = planewise h w (\<lambda>M. map rev (rev M)) d"
    by (rule planewise_comp_gen [OF len]) (simp_all add: is_mat_rev)
  finally show ?thesis
    using 3 by (simp add: rot90_def ndim_def turned_def rot_mat_2 np_flip_last np_flip_rows)
next
  assume 4: "k mod 4 = 3"
  have l2: "length (planewise h w transpose d) = P * (w * h)"
    by (rule length_planewise_gen [OF len]) (simp_all add: is_mat_transpose mult.commute)
  have "concat (map rev (chop h (planewise h w transpose d)))
          = planewise w h (map rev) (planewise h w transpose d)"
    using l2 by (rule rows_planewise_gen)
  also have "\<dots> = planewise h w (\<lambda>M. map rev (transpose M)) d"
    by (rule planewise_comp_gen [OF len]) (simp_all add: is_mat_transpose mult.commute)
  finally show ?thesis
    using 4 by (simp add: rot90_def ndim_def turned_def rot_mat_3 np_flip_last
        transpose_last2_planes)
qed

lemma length_rot_planes:
  assumes "length d = P * (h * w)"
  shows "length (planewise h w (rot_mat k) d) = P * (h * w)"
proof -
  have "length (planewise h w (rot_mat k) d)
          = P * ((if turned k then w else h) * (if turned k then h else w))"
    by (rule length_planewise_gen [OF assms]) (simp_all add: is_mat_rot_mat mult.commute)
  then show ?thesis by (simp add: mult.commute)
qed

lemma flip_and_rotate_planes:
  assumes len: "length d = P * (h * w)"
  shows "flip_and_rotate \<lparr>shape = pre @ [h, w], data = d\<rparr> k f
           = Inr \<lparr>shape = pre @ (if turned k then [w, h] else [h, w]),
                  data = planewise h w (\<lambda>M. flip_mat f (rot_mat k M)) d\<rparr>"
proof (cases "f = 1")
  case False
  then show ?thesis
    by (simp add: flip_and_rotate_def rot90_planes [OF len] flip_mat_def)
next
  case True
  let ?h = "if turned k then w else h" and ?w = "if turned k then h else w"
  let ?r = "planewise h w (rot_mat k) d"
  have l2: "length ?r = P * (?h * ?w)"
    using length_rot_planes [OF len, of k] by (simp add: mult.commute)
  have "concat (map rev (chop ?w ?r)) = planewise ?h ?w (map rev) ?r"
    using l2 by (rule rows_planewise_gen)
  also have "\<dots> = planewise h w (\<lambda>M. map rev (rot_mat k M)) d"
    by (rule planewise_comp_gen [OF len]) (simp_all add: is_mat_rot_mat mult.commute)
  finally have "concat (map rev (chop ?w ?r)) = planewise h w (\<lambda>M. flip_mat f (rot_mat k M)) d"
    using True by (simp add: flip_mat_def)
  moreover have "pre @ (if turned k then [w, h] else [h, w]) = pre @ [?h, ?w]"
    by simp
  ultimately show ?thesis
    using True by (simp add: flip_and_rotate_def rot90_planes [OF len] np_flip_last del: append.simps)
qed

section \<open>Evaluation on concrete arrays\<close>

lemmas eval_defs = flip_and_rotate_def rot90_def np_flip_def flip_axis_def transpose_last2_def
  ndim_def chop_step

section \<open>Arrays of at least two dimensions\<close>

lemma last_two:
  assumes "2 \<le> length s"
  shows "s = take (length s - 2) s @ [s ! (length s - 2), s ! (length s - 1)]"
proof -
  let ?k = "length s - 2"
  have k: "?k < length s" "Suc ?k < length s" "Suc ?k = length s - 1" using assms by auto
  have "drop ?k s = s ! ?k # drop (Suc ?k) s"
    using k(1) by (rule Cons_nth_drop_Suc [symmetric])
  also have "drop (Suc ?k) s = s ! Suc ?k # drop (Suc (Suc ?k)) s"
    using k(2) by (rule Cons_nth_drop_Suc [symmetric])
  also have "drop (Suc (Suc ?k)) s = []" using assms by simp
  finally have "drop ?k s = [s ! ?k, s ! (length s - 1)]" using k(3) by simp
  then have "take ?k s @ [s ! ?k, s ! (length s - 1)] = take ?k s @ drop ?k s" by simp
  then show ?thesis by simp
qed

lemma shape_last2: "2 \<le> ndim x \<Longrightarrow> shape x = lead x @ [height x, width x]"
  unfolding ndim_def lead_def height_def width_def by (rule last_two)

lemma array_planes:
  fixes x :: "'a ndarray"
  assumes "2 \<le> ndim x"
  shows "x = \<lparr>shape = lead x @ [height x, width x], data = data x\<rparr>"
  using shape_last2 [OF assms] by (cases x) simp

lemma wf_array_planes:
  assumes "wf_array x" "2 \<le> ndim x"
  shows "length (data x) = prod_list (lead x) * (height x * width x)"
proof -
  have "prod_list (shape x) = prod_list (lead x @ [height x, width x])"
    using shape_last2 [OF assms(2)] by simp
  then show ?thesis using assms(1) by (simp add: wf_array_def)
qed

lemma flip_and_rotate_array:
  fixes x :: "'a ndarray"
  assumes "wf_array x" "2 \<le> ndim x"
  shows "flip_and_rotate x k f
           = Inr \<lparr>shape = lead x @ (if turned k then [width x, height x] else [height x, width x]),
                  data = planewise (height x) (width x) (\<lambda>M. flip_mat f (rot_mat k M)) (data x)\<rparr>"
proof -
  have "flip_and_rotate \<lparr>shape = lead x @ [height x, width x], data = data x\<rparr> k f
          = Inr \<lparr>shape = lead x @ (if turned k then [width x, height x] else [height x, width x]),
                 data = planewise (height x) (width x) (\<lambda>M. flip_mat f (rot_mat k M)) (data x)\<rparr>"
    using wf_array_planes [OF assms] by (rule flip_and_rotate_planes)
  then show ?thesis using array_planes [OF assms(2)] by simp
qed

text \<open>Without the length of the data: the call succeeds and the shape is known.\<close>

lemma rot90_succeeds:
  "\<exists>d'. rot90 \<lparr>shape = pre @ [h, w], data = d\<rparr> k
           = Inr \<lparr>shape = pre @ (if turned k then [w, h] else [h, w]), data = d'\<rparr>"
proof (rule mod4_cases [of k])
  assume "k mod 4 = 0"
  then show ?thesis by (simp add: rot90_def ndim_def turned_def)
next
  assume "k mod 4 = 1"
  then show ?thesis
    by (simp add: rot90_def ndim_def turned_def np_flip_last transpose_last2_planes)
next
  assume "k mod 4 = 2"
  then show ?thesis by (simp add: rot90_def ndim_def turned_def np_flip_last np_flip_rows)
next
  assume "k mod 4 = 3"
  then show ?thesis
    by (simp add: rot90_def ndim_def turned_def np_flip_last transpose_last2_planes)
qed

lemma flip_and_rotate_succeeds:
  "\<exists>d'. flip_and_rotate \<lparr>shape = pre @ [h, w], data = d\<rparr> k f
           = Inr \<lparr>shape = pre @ (if turned k then [w, h] else [h, w]), data = d'\<rparr>"
proof -
  obtain d' where r: "rot90 \<lparr>shape = pre @ [h, w], data = d\<rparr> k
      = Inr \<lparr>shape = pre @ (if turned k then [w, h] else [h, w]), data = d'\<rparr>"
    using rot90_succeeds by blast
  have "pre @ (if turned k then [w, h] else [h, w])
          = pre @ [if turned k then w else h, if turned k then h else w]"
    by simp
  then show ?thesis
    unfolding flip_and_rotate_def r by (simp add: np_flip_last del: append.simps)
qed

lemma quarter_quarter:
  assumes "is_mat h w M" "0 < h" "0 < w"
  shows "rot_mat 1 (rot_mat 1 M) = rev (map rev M)"
proof -
  have t: "is_mat w h (transpose M)" using assms by (simp add: is_mat_transpose)
  have "rot_mat 1 M = rev (transpose M)"
    using assms by (simp add: rot_mat_def transpose_map_rev)
  moreover have "is_mat w h (rev (transpose M))" using t by (rule is_mat_rev)
  ultimately have "rot_mat 1 (rot_mat 1 M) = rev (transpose (rev (transpose M)))"
    using assms(3) by (simp add: rot_mat_def transpose_map_rev)
  also have "transpose (rev (transpose M)) = map rev (transpose (transpose M))"
    using t assms(3) by (rule transpose_rev)
  also have "transpose (transpose M) = M"
    using assms by (rule transpose_transpose_mat)
  finally show ?thesis .
qed

lemma half_turn_planes:
  assumes len: "length d = P * (h * w)"
  shows "and_then (flip_and_rotate \<lparr>shape = pre @ [h, w], data = d\<rparr> 1 0)
                  (\<lambda>a. flip_and_rotate a 1 0)
           = Inr \<lparr>shape = pre @ [h, w], data = planewise h w (\<lambda>M. rev (map rev M)) d\<rparr>"
proof -
  let ?q = "\<lambda>M. flip_mat 0 (rot_mat 1 M)"
  have t: "turned 1" by (simp add: turned_def)
  have first: "flip_and_rotate \<lparr>shape = pre @ [h, w], data = d\<rparr> 1 0
      = Inr \<lparr>shape = pre @ [w, h], data = planewise h w ?q d\<rparr>"
    using flip_and_rotate_planes [OF len, of pre 1 0] t by simp
  have len': "length (planewise h w ?q d) = P * (w * h)"
    using length_rot_planes [OF len, of 1] by (simp add: flip_mat_def mult.commute)
  have second: "flip_and_rotate \<lparr>shape = pre @ [w, h], data = planewise h w ?q d\<rparr> 1 0
      = Inr \<lparr>shape = pre @ [h, w], data = planewise w h ?q (planewise h w ?q d)\<rparr>"
    using flip_and_rotate_planes [OF len', of pre 1 0] t by simp
  have "planewise w h ?q (planewise h w ?q d) = planewise h w (\<lambda>M. ?q (?q M)) d"
    by (rule planewise_comp_gen [OF len])
      (use is_mat_rot_mat [of h w _ 1] t in \<open>simp_all add: flip_mat_def mult.commute\<close>)
  also have "\<dots> = planewise h w (\<lambda>M. rev (map rev M)) d"
    by (rule planewise_cong_gen [OF len]) (simp add: flip_mat_def quarter_quarter)
  finally show ?thesis
    by (simp add: and_then_def first second)
qed

lemma length_half_turn:
  assumes len: "length d = P * (h * w)"
  shows "length (planewise h w (\<lambda>M. rev (map rev M)) d) = P * (h * w)"
  by (rule length_planewise_gen [OF len]) (simp_all add: is_mat_rev is_mat_map_rev)

lemma and_then_assoc: "and_then (and_then r f) g = and_then r (\<lambda>x. and_then (f x) g)"
  by (cases r) (simp_all add: and_then_def)

lemma flip_and_rotate_total:
  fixes x :: "'a ndarray"
  assumes "2 \<le> ndim x"
  shows "\<exists>d'. flip_and_rotate x k f
           = Inr \<lparr>shape = lead x @ (if turned k then [width x, height x] else [height x, width x]),
                  data = d'\<rparr>"
proof -
  have "\<exists>d'. flip_and_rotate \<lparr>shape = lead x @ [height x, width x], data = data x\<rparr> k f
           = Inr \<lparr>shape = lead x @ (if turned k then [width x, height x] else [height x, width x]),
                  data = d'\<rparr>"
    by (rule flip_and_rotate_succeeds)
  then show ?thesis using array_planes [OF assms] by simp
qed

lemma flip_and_rotate_mod: "flip_and_rotate x (k mod 4) f = flip_and_rotate x k f"
  by (simp add: flip_and_rotate_def rot90_def)

lemma flip_and_rotate_no_flip: "f \<noteq> 1 \<Longrightarrow> flip_and_rotate x k f = flip_and_rotate x k 0"
  by (simp add: flip_and_rotate_def split: sum.split)

section \<open>Quarter turns, then the flip\<close>

lemma rot_mat_1_ccw:
  assumes "is_mat h w M" "0 < h"
  shows "rot_mat 1 M = quarter_turn_ccw h w M"
proof -
  have "transpose (map rev M) = map (\<lambda>i. map (\<lambda>j. map rev M ! j ! i) [0..<h]) [0..<w]"
    using assms by (intro transpose_mat is_mat_map_rev)
  also have "\<dots> = quarter_turn_ccw h w M"
    using assms(1) by (auto simp: quarter_turn_ccw_def is_mat_def rev_nth)
  finally show ?thesis by (simp add: rot_mat_def)
qed

lemma map_rev_mirror:
  assumes "is_mat h w M"
  shows "map rev M = mirror_last h w M"
  using assms
  by (auto simp: mirror_last_def is_mat_def rev_nth intro!: nth_equalityI)

lemma turned_Suc: "turned (k + 1) \<longleftrightarrow> \<not> turned k"
  unfolding turned_def by presburger

lemma rot_mat_Suc:
  assumes "is_mat h w M" "0 < h" "0 < w"
  shows "rot_mat 1 (rot_mat k M) = rot_mat (k + 1) M"
proof (rule mod4_cases [of k])
  assume k: "k mod 4 = 0"
  then have "(k + 1) mod 4 = 1" by presburger
  then show ?thesis using k by (simp add: rot_mat_0 rot_mat_1)
next
  assume k: "k mod 4 = 1"
  then have k1: "(k + 1) mod 4 = 2" by presburger
  have "rot_mat 1 (rot_mat k M) = rot_mat 1 (rot_mat 1 M)"
    using k by (simp add: rot_mat_1)
  also have "\<dots> = rev (map rev M)"
    using assms by (rule quarter_quarter)
  also have "\<dots> = rot_mat (k + 1) M"
    using k1 by (simp add: rot_mat_2 rev_map)
  finally show ?thesis .
next
  assume k: "k mod 4 = 2"
  then have k1: "(k + 1) mod 4 = 3" by presburger
  have "transpose (rev M) = map rev (transpose M)"
    using assms(1,2) by (rule transpose_rev)
  then show ?thesis using k k1 by (simp add: rot_mat_1 rot_mat_2 rot_mat_3 comp_def)
next
  assume k: "k mod 4 = 3"
  then have k1: "(k + 1) mod 4 = 0" by presburger
  have "transpose (transpose M) = M"
    using assms by (rule transpose_transpose_mat)
  then show ?thesis using k k1 by (simp add: rot_mat_1 rot_mat_3 rot_mat_0 comp_def)
qed

lemma flip_mat_0: "flip_mat 0 M = M"
  by (simp add: flip_mat_def)

lemma flip_and_rotate_identity:
  "2 \<le> ndim x \<Longrightarrow> flip_and_rotate x 0 0 = Inr x"
  by (simp add: flip_and_rotate_def rot90_def)

lemma flip_after_rotation:
  fixes x :: "'a ndarray"
  assumes "2 \<le> ndim x"
  shows "flip_and_rotate x k 1 = and_then (flip_and_rotate x k 0) (\<lambda>y. flip_and_rotate y 0 1)"
proof -
  obtain d' where "rot90 \<lparr>shape = lead x @ [height x, width x], data = data x\<rparr> k
      = Inr \<lparr>shape = lead x @ (if turned k then [width x, height x] else [height x, width x]),
             data = d'\<rparr>"
    using rot90_succeeds by blast
  then have r: "rot90 x k
      = Inr \<lparr>shape = lead x @ (if turned k then [width x, height x] else [height x, width x]),
             data = d'\<rparr>"
    using array_planes [OF assms] by simp
  show ?thesis
    by (simp add: flip_and_rotate_def r and_then_def) (simp add: rot90_def ndim_def)
qed

lemma quarter_turn_array:
  fixes x :: "'a ndarray"
  assumes "wf_array x" "2 \<le> ndim x"
  shows "flip_and_rotate x 1 0
           = Inr \<lparr>shape = lead x @ [width x, height x],
                  data = planewise (height x) (width x)
                           (quarter_turn_ccw (height x) (width x)) (data x)\<rparr>"
proof -
  have "planewise (height x) (width x) (\<lambda>M. flip_mat 0 (rot_mat 1 M)) (data x)
          = planewise (height x) (width x) (quarter_turn_ccw (height x) (width x)) (data x)"
    by (rule planewise_cong_gen [OF wf_array_planes [OF assms]])
      (simp add: flip_mat_0 rot_mat_1_ccw)
  moreover have "turned 1" by (simp add: turned_def)
  ultimately show ?thesis
    using flip_and_rotate_array [OF assms, of 1 0] by simp
qed

lemma mirror_array:
  fixes x :: "'a ndarray"
  assumes "wf_array x" "2 \<le> ndim x"
  shows "flip_and_rotate x 0 1
           = Inr \<lparr>shape = shape x,
                  data = planewise (height x) (width x)
                           (mirror_last (height x) (width x)) (data x)\<rparr>"
proof -
  have "planewise (height x) (width x) (\<lambda>M. flip_mat 1 (rot_mat 0 M)) (data x)
          = planewise (height x) (width x) (mirror_last (height x) (width x)) (data x)"
    by (rule planewise_cong_gen [OF wf_array_planes [OF assms]])
      (simp add: flip_mat_def rot_mat_def map_rev_mirror)
  moreover have "\<not> turned 0" by (simp add: turned_def)
  ultimately show ?thesis
    using flip_and_rotate_array [OF assms, of 0 1] shape_last2 [OF assms(2)] by simp
qed

lemma one_more_quarter_turn:
  fixes x :: "'a ndarray"
  assumes "wf_array x" "2 \<le> ndim x"
  shows "flip_and_rotate x (k + 1) 0
           = and_then (flip_and_rotate x k 0) (\<lambda>y. flip_and_rotate y 1 0)"
proof -
  let ?pre = "lead x" and ?h = "height x" and ?w = "width x" and ?d = "data x"
  let ?h' = "if turned k then ?w else ?h" and ?w' = "if turned k then ?h else ?w"
  let ?y = "\<lparr>shape = ?pre @ [?h', ?w'], data = planewise ?h ?w (rot_mat k) ?d\<rparr>"
  have len: "length ?d = prod_list ?pre * (?h * ?w)"
    using assms by (rule wf_array_planes)
  have t1: "turned 1" by (simp add: turned_def)
  have first: "flip_and_rotate x k 0 = Inr ?y"
    using flip_and_rotate_array [OF assms, of k 0] by (simp add: flip_mat_0)
  have len': "length (planewise ?h ?w (rot_mat k) ?d) = prod_list ?pre * (?h' * ?w')"
    using length_rot_planes [OF len, of k] by (simp add: mult.commute)
  have second: "flip_and_rotate ?y 1 0
      = Inr \<lparr>shape = ?pre @ [?w', ?h'],
             data = planewise ?h' ?w' (rot_mat 1) (planewise ?h ?w (rot_mat k) ?d)\<rparr>"
    using flip_and_rotate_planes [OF len', of ?pre 1 0] t1 by (simp add: flip_mat_0)
  have "planewise ?h' ?w' (rot_mat 1) (planewise ?h ?w (rot_mat k) ?d)
          = planewise ?h ?w (\<lambda>M. rot_mat 1 (rot_mat k M)) ?d"
    by (rule planewise_comp_gen [OF len]) (simp_all add: is_mat_rot_mat mult.commute)
  also have "\<dots> = planewise ?h ?w (rot_mat (k + 1)) ?d"
    by (rule planewise_cong_gen [OF len]) (rule rot_mat_Suc)
  finally have dat: "planewise ?h' ?w' (rot_mat 1) (planewise ?h ?w (rot_mat k) ?d)
      = planewise ?h ?w (rot_mat (k + 1)) ?d" .
  have shp: "?pre @ [?w', ?h'] = ?pre @ (if turned (k + 1) then [?w, ?h] else [?h, ?w])"
    by (simp add: turned_Suc)
  have "flip_and_rotate x (k + 1) 0
      = Inr \<lparr>shape = ?pre @ (if turned (k + 1) then [?w, ?h] else [?h, ?w]),
             data = planewise ?h ?w (rot_mat (k + 1)) ?d\<rparr>"
    using flip_and_rotate_array [OF assms, of "k + 1" 0] by (simp add: flip_mat_0)
  also have "\<dots> = flip_and_rotate ?y 1 0"
    unfolding second dat shp ..
  finally show ?thesis by (simp add: first and_then_def)
qed

text \<open>
  C4. On every array of at least two dimensions the primitive works on the planes of
  the last two axes, one by one. With \<open>rotate_state = 1\<close> and \<open>flip_state = 0\<close> every plane
  is replaced by its counter-clockwise quarter turn, and the last two axis lengths are
  exchanged; \<open>rotate_state = 0\<close> changes nothing; \<open>rotate_state + 1\<close> is one more quarter
  turn after \<open>rotate_state\<close> of them. With \<open>flip_state = 1\<close> the result is the one of
  \<open>flip_state = 0\<close>, mirrored along the last axis afterwards. In particular
  \<open>[[1,2],[3,4]]\<close> with \<open>rotate_state = 1\<close>, \<open>flip_state = 0\<close> gives \<open>[[2,4],[1,3]]\<close>, and
  \<open>[[5,6],[7,8]]\<close> gives \<open>[[6,8],[5,7]]\<close>.
\<close>

theorem flip_and_rotate_rotates_then_flips:
  fixes x :: "'a ndarray"
  assumes "wf_array x" "2 \<le> ndim x"
  shows "flip_and_rotate x 0 0 = Inr x \<and>
         flip_and_rotate x 1 0
           = Inr \<lparr>shape = lead x @ [width x, height x],
                  data = planewise (height x) (width x)
                           (quarter_turn_ccw (height x) (width x)) (data x)\<rparr> \<and>
         flip_and_rotate x (rotate_state + 1) 0
           = and_then (flip_and_rotate x rotate_state 0) (\<lambda>y. flip_and_rotate y 1 0) \<and>
         flip_and_rotate x 0 1
           = Inr \<lparr>shape = shape x,
                  data = planewise (height x) (width x)
                           (mirror_last (height x) (width x)) (data x)\<rparr> \<and>
         flip_and_rotate x rotate_state 1
           = and_then (flip_and_rotate x rotate_state 0) (\<lambda>y. flip_and_rotate y 0 1) \<and>
         flip_and_rotate \<lparr>shape = [2, 2], data = [1, 2, 3, 4::int]\<rparr> 1 0
           = Inr \<lparr>shape = [2, 2], data = [2, 4, 1, 3]\<rparr> \<and>
         flip_and_rotate \<lparr>shape = [2, 2], data = [5, 6, 7, 8::int]\<rparr> 1 0
           = Inr \<lparr>shape = [2, 2], data = [6, 8, 5, 7]\<rparr>"
proof (intro conjI)
  show "flip_and_rotate x 0 0 = Inr x"
    using assms(2) by (rule flip_and_rotate_identity)
  show "flip_and_rotate x 1 0
      = Inr \<lparr>shape = lead x @ [width x, height x],
             data = planewise (height x) (width x)
                      (quarter_turn_ccw (height x) (width x)) (data x)\<rparr>"
    using assms by (rule quarter_turn_array)
  show "flip_and_rotate x (rotate_state + 1) 0
      = and_then (flip_and_rotate x rotate_state 0) (\<lambda>y. flip_and_rotate y 1 0)"
    using assms by (rule one_more_quarter_turn)
  show "flip_and_rotate x 0 1
      = Inr \<lparr>shape = shape x,
             data = planewise (height x) (width x)
                      (mirror_last (height x) (width x)) (data x)\<rparr>"
    using assms by (rule mirror_array)
  show "flip_and_rotate x rotate_state 1
      = and_then (flip_and_rotate x rotate_state 0) (\<lambda>y. flip_and_rotate y 0 1)"
    using assms(2) by (rule flip_after_rotation)
  show "flip_and_rotate \<lparr>shape = [2, 2], data = [1, 2, 3, 4::int]\<rparr> 1 0
      = Inr \<lparr>shape = [2, 2], data = [2, 4, 1, 3]\<rparr>"
    by (simp add: eval_defs)
  show "flip_and_rotate \<lparr>shape = [2, 2], data = [5, 6, 7, 8::int]\<rparr> 1 0
      = Inr \<lparr>shape = [2, 2], data = [6, 8, 5, 7]\<rparr>"
    by (simp add: eval_defs)
qed

theorem flip_and_rotate_rotates_then_flips_witness:
  "wf_array \<lparr>shape = [2, 2, 3], data = [1, 2, 3, 4, 5, 6, 7, 8, 9, 10, 11, 12::int]\<rparr> \<and>
   2 \<le> ndim \<lparr>shape = [2, 2, 3], data = [1, 2, 3, 4, 5, 6, 7, 8, 9, 10, 11, 12::int]\<rparr> \<and>
   flip_and_rotate \<lparr>shape = [2, 2, 3], data = [1, 2, 3, 4, 5, 6, 7, 8, 9, 10, 11, 12::int]\<rparr> 1 0
     = Inr \<lparr>shape = [2, 3, 2], data = [3, 6, 2, 5, 1, 4, 9, 12, 8, 11, 7, 10]\<rparr> \<and>
   flip_and_rotate \<lparr>shape = [2, 2, 3], data = [1, 2, 3, 4, 5, 6, 7, 8, 9, 10, 11, 12::int]\<rparr> 0 1
     = Inr \<lparr>shape = [2, 2, 3], data = [3, 2, 1, 6, 5, 4, 9, 8, 7, 12, 11, 10]\<rparr> \<and>
   flip_and_rotate \<lparr>shape = [2, 2, 3], data = [1, 2, 3, 4, 5, 6, 7, 8, 9, 10, 11, 12::int]\<rparr> (1 + 1) 0
     = and_then
         (flip_and_rotate \<lparr>shape = [2, 2, 3], data = [1, 2, 3, 4, 5, 6, 7, 8, 9, 10, 11, 12::int]\<rparr> 1 0)
         (\<lambda>y. flip_and_rotate y 1 0) \<and>
   flip_and_rotate \<lparr>shape = [2, 2, 3], data = [1, 2, 3, 4, 5, 6, 7, 8, 9, 10, 11, 12::int]\<rparr> 1 1
     = and_then
         (flip_and_rotate \<lparr>shape = [2, 2, 3], data = [1, 2, 3, 4, 5, 6, 7, 8, 9, 10, 11, 12::int]\<rparr> 1 0)
         (\<lambda>y. flip_and_rotate y 0 1)"
proof -
  let ?x = "\<lparr>shape = [2, 2, 3], data = [1, 2, 3, 4, 5, 6, 7, 8, 9, 10, 11, 12::int]\<rparr>"
  have wf: "wf_array ?x" by (simp add: wf_array_def)
  have nd: "2 \<le> ndim ?x" by (simp add: ndim_def)
  note t = flip_and_rotate_rotates_then_flips [OF wf nd, of 1]
  have h: "height ?x = 2" and w: "width ?x = 3" and l: "lead ?x = [2]"
    by (simp_all add: height_def width_def lead_def ndim_def)
  have q: "planewise 2 3 (quarter_turn_ccw 2 3) [1, 2, 3, 4, 5, 6, 7, 8, 9, 10, 11, 12::int]
      = [3, 6, 2, 5, 1, 4, 9, 12, 8, 11, 7, 10]"
    by code_simp
  have r: "planewise 2 3 (mirror_last 2 3) [1, 2, 3, 4, 5, 6, 7, 8, 9, 10, 11, 12::int]
      = [3, 2, 1, 6, 5, 4, 9, 8, 7, 12, 11, 10]"
    by code_simp
  from t have "flip_and_rotate ?x 1 0
      = Inr \<lparr>shape = lead ?x @ [width ?x, height ?x],
             data = planewise (height ?x) (width ?x)
                      (quarter_turn_ccw (height ?x) (width ?x)) (data ?x)\<rparr>"
    by (rule conjunct2 [THEN conjunct1])
  then have a: "flip_and_rotate ?x 1 0
      = Inr \<lparr>shape = [2, 3, 2], data = [3, 6, 2, 5, 1, 4, 9, 12, 8, 11, 7, 10]\<rparr>"
    unfolding h w l by (simp add: q)
  from t have "flip_and_rotate ?x 0 1
      = Inr \<lparr>shape = shape ?x,
             data = planewise (height ?x) (width ?x)
                      (mirror_last (height ?x) (width ?x)) (data ?x)\<rparr>"
    by (rule conjunct2 [THEN conjunct2, THEN conjunct2, THEN conjunct1])
  then have b: "flip_and_rotate ?x 0 1
      = Inr \<lparr>shape = [2, 2, 3], data = [3, 2, 1, 6, 5, 4, 9, 8, 7, 12, 11, 10]\<rparr>"
    unfolding h w l by (simp add: r)
  from t have c: "flip_and_rotate ?x (1 + 1) 0
      = and_then (flip_and_rotate ?x 1 0) (\<lambda>y. flip_and_rotate y 1 0)"
    by (rule conjunct2 [THEN conjunct2, THEN conjunct1])
  from t have d: "flip_and_rotate ?x 1 1
      = and_then (flip_and_rotate ?x 1 0) (\<lambda>y. flip_and_rotate y 0 1)"
    by (rule conjunct2 [THEN conjunct2, THEN conjunct2, THEN conjunct2, THEN conjunct1])
  from wf nd a b c d show ?thesis by (intro conjI)
qed

section \<open>Algebra of the rotate-and-flip primitive\<close>

text \<open>
  C7. For every array \<open>x\<close> of at least two dimensions, four successive calls of the
  primitive with \<open>rotate_state = 1\<close> and \<open>flip_state = 0\<close> succeed and the last one returns
  \<open>x\<close> itself: shape and elements are those of \<open>x\<close>.
\<close>

theorem four_quarter_turns:
  fixes x :: "'a ndarray"
  assumes "wf_array x" "2 \<le> ndim x"
  shows "and_then (and_then (and_then (flip_and_rotate x 1 0)
                                      (\<lambda>a. flip_and_rotate a 1 0))
                            (\<lambda>b. flip_and_rotate b 1 0))
                  (\<lambda>c. flip_and_rotate c 1 0) = Inr x"
proof -
  let ?pre = "lead x" and ?h = "height x" and ?w = "width x" and ?d = "data x"
  let ?half = "\<lambda>M::'a list list. rev (map rev M)"
  let ?y = "\<lparr>shape = ?pre @ [?h, ?w], data = planewise ?h ?w ?half ?d\<rparr>"
  have len: "length ?d = prod_list ?pre * (?h * ?w)"
    using assms by (rule wf_array_planes)
  have x: "x = \<lparr>shape = ?pre @ [?h, ?w], data = ?d\<rparr>"
    using assms(2) by (rule array_planes)
  have half1: "and_then (flip_and_rotate x 1 0) (\<lambda>a. flip_and_rotate a 1 0) = Inr ?y"
    using half_turn_planes [OF len, of ?pre] x by simp
  have half2: "and_then (flip_and_rotate ?y 1 0) (\<lambda>a. flip_and_rotate a 1 0)
      = Inr \<lparr>shape = ?pre @ [?h, ?w], data = planewise ?h ?w ?half (planewise ?h ?w ?half ?d)\<rparr>"
    using length_half_turn [OF len] by (rule half_turn_planes)
  have "planewise ?h ?w ?half (planewise ?h ?w ?half ?d) = planewise ?h ?w (\<lambda>M. ?half (?half M)) ?d"
    by (rule planewise_comp_gen [OF len]) (simp_all add: is_mat_rev is_mat_map_rev)
  also have "\<dots> = planewise ?h ?w (\<lambda>M. M) ?d"
    by (simp add: rev_map)
  also have "\<dots> = ?d" using len by (rule planewise_id_gen)
  finally have restored: "\<lparr>shape = ?pre @ [?h, ?w], data = planewise ?h ?w ?half (planewise ?h ?w ?half ?d)\<rparr> = x"
    using x by simp
  have "and_then (and_then (and_then (flip_and_rotate x 1 0) (\<lambda>a. flip_and_rotate a 1 0))
                  (\<lambda>b. flip_and_rotate b 1 0)) (\<lambda>c. flip_and_rotate c 1 0)
        = and_then (and_then (flip_and_rotate x 1 0) (\<lambda>a. flip_and_rotate a 1 0))
            (\<lambda>b. and_then (flip_and_rotate b 1 0) (\<lambda>c. flip_and_rotate c 1 0))"
    by (rule and_then_assoc)
  also have "\<dots> = and_then (flip_and_rotate ?y 1 0) (\<lambda>c. flip_and_rotate c 1 0)"
    unfolding half1 by (simp add: and_then_def)
  also have "\<dots> = Inr x" unfolding half2 restored ..
  finally show ?thesis .
qed

theorem four_quarter_turns_witness:
  "wf_array \<lparr>shape = [2, 3], data = [1, 2, 3, 4, 5, 6::int]\<rparr> \<and>
   2 \<le> ndim \<lparr>shape = [2, 3], data = [1, 2, 3, 4, 5, 6::int]\<rparr> \<and>
   and_then (and_then (and_then
       (flip_and_rotate \<lparr>shape = [2, 3], data = [1, 2, 3, 4, 5, 6::int]\<rparr> 1 0)
       (\<lambda>a. flip_and_rotate a 1 0)) (\<lambda>b. flip_and_rotate b 1 0)) (\<lambda>c. flip_and_rotate c 1 0)
     = Inr \<lparr>shape = [2, 3], data = [1, 2, 3, 4, 5, 6]\<rparr>"
  using four_quarter_turns [of "\<lparr>shape = [2, 3], data = [1, 2, 3, 4, 5, 6::int]\<rparr>"]
  by (simp add: wf_array_def ndim_def)

text \<open>
  C8. For every array \<open>x\<close> of at least two dimensions, two successive calls of the
  primitive with \<open>rotate_state = 0\<close> and \<open>flip_state = 1\<close> succeed and the second one returns
  \<open>x\<close> itself.
\<close>

theorem flip_twice:
  fixes x :: "'a ndarray"
  assumes "wf_array x" "2 \<le> ndim x"
  shows "and_then (flip_and_rotate x 0 1) (\<lambda>a. flip_and_rotate a 0 1) = Inr x"
proof -
  let ?pre = "lead x" and ?h = "height x" and ?w = "width x" and ?d = "data x"
  let ?y = "\<lparr>shape = ?pre @ [?h, ?w], data = planewise ?h ?w (map rev) ?d\<rparr>"
  have len: "length ?d = prod_list ?pre * (?h * ?w)"
    using assms by (rule wf_array_planes)
  have x: "x = \<lparr>shape = ?pre @ [?h, ?w], data = ?d\<rparr>"
    using assms(2) by (rule array_planes)
  have nt: "\<not> turned 0" by (simp add: turned_def)
  have m: "(\<lambda>M::'a list list. flip_mat 1 (rot_mat 0 M)) = map rev"
    by (simp add: fun_eq_iff flip_mat_def rot_mat_def)
  have first: "flip_and_rotate x 0 1 = Inr ?y"
    using flip_and_rotate_array [OF assms, of 0 1] nt m by simp
  have len': "length (planewise ?h ?w (map rev) ?d) = prod_list ?pre * (?h * ?w)"
    by (rule length_planewise_gen [OF len]) (simp_all add: is_mat_map_rev)
  have second: "flip_and_rotate ?y 0 1
      = Inr \<lparr>shape = ?pre @ [?h, ?w], data = planewise ?h ?w (map rev) (planewise ?h ?w (map rev) ?d)\<rparr>"
    using flip_and_rotate_planes [OF len', of ?pre 0 1] nt m by simp
  have "planewise ?h ?w (map rev) (planewise ?h ?w (map rev) ?d)
          = planewise ?h ?w (\<lambda>M. map rev (map rev M)) ?d"
    by (rule planewise_comp_gen [OF len]) (simp_all add: is_mat_map_rev)
  also have "\<dots> = planewise ?h ?w (\<lambda>M. M) ?d"
    by (simp add: comp_def)
  also have "\<dots> = ?d" using len by (rule planewise_id_gen)
  finally have "\<lparr>shape = ?pre @ [?h, ?w],
      data = planewise ?h ?w (map rev) (planewise ?h ?w (map rev) ?d)\<rparr> = x"
    using x by simp
  then show ?thesis
    by (simp add: and_then_def first second)
qed

theorem flip_twice_witness:
  "wf_array \<lparr>shape = [2, 3], data = [1, 2, 3, 4, 5, 6::int]\<rparr> \<and>
   2 \<le> ndim \<lparr>shape = [2, 3], data = [1, 2, 3, 4, 5, 6::int]\<rparr> \<and>
   and_then (flip_and_rotate \<lparr>shape = [2, 3], data = [1, 2, 3, 4, 5, 6::int]\<rparr> 0 1)
            (\<lambda>a. flip_and_rotate a 0 1)
     = Inr \<lparr>shape = [2, 3], data = [1, 2, 3, 4, 5, 6]\<rparr>"
  using flip_twice [of "\<lparr>shape = [2, 3], data = [1, 2, 3, 4, 5, 6::int]\<rparr>"]
  by (simp add: wf_array_def ndim_def)

section \<open>Shape of the result\<close>

lemma length_flip_rot_planes:
  assumes "length d = P * (h * w)"
  shows "length (planewise h w (\<lambda>M. flip_mat f (rot_mat k M)) d) = P * (h * w)"
proof -
  have "length (planewise h w (\<lambda>M. flip_mat f (rot_mat k M)) d)
          = P * ((if turned k then w else h) * (if turned k then h else w))"
    by (rule length_planewise_gen [OF assms])
      (simp_all add: is_mat_rot_mat is_mat_flip_mat mult.commute)
  then show ?thesis by (simp add: mult.commute)
qed

lemma flip_and_rotate_wf:
  fixes x :: "'a ndarray"
  assumes "wf_array x" "2 \<le> ndim x" "flip_and_rotate x k f = Inr y"
  shows "wf_array y"
proof -
  have "length (planewise (height x) (width x) (\<lambda>M. flip_mat f (rot_mat k M)) (data x))
      = prod_list (lead x) * (height x * width x)"
    using wf_array_planes [OF assms(1,2)] by (rule length_flip_rot_planes)
  moreover have "y = \<lparr>shape = lead x @ (if turned k then [width x, height x] else [height x, width x]),
      data = planewise (height x) (width x) (\<lambda>M. flip_mat f (rot_mat k M)) (data x)\<rparr>"
    using flip_and_rotate_array [OF assms(1,2), of k f] assms(3) by simp
  ultimately show ?thesis by (simp add: wf_array_def mult.commute)
qed

text \<open>
  C9. For every array of at least two dimensions, square or not, and every
  \<open>flip_state\<close>, the primitive returns an array whose shape is the leading axes of the
  input followed by the last two axis lengths, exchanged when \<open>rotate_state\<close> is 1 or 3
  (modulo 4) and in the input's order when it is 0 or 2 (modulo 4). The array returned
  holds as many elements as its shape announces whenever the input does.
\<close>

theorem flip_and_rotate_shape:
  fixes x :: "'a ndarray"
  assumes "2 \<le> ndim x"
  shows "\<exists>y. flip_and_rotate x rotate_state flip_state = Inr y \<and>
             shape x = lead x @ [height x, width x] \<and>
             shape y = lead x @ (if rotate_state mod 4 = 1 \<or> rotate_state mod 4 = 3
                                 then [width x, height x] else [height x, width x]) \<and>
             (wf_array x \<longrightarrow> wf_array y)"
proof -
  obtain y where y: "flip_and_rotate x rotate_state flip_state = Inr y"
    and s: "shape y = lead x @ (if turned rotate_state then [width x, height x]
                                 else [height x, width x])"
    using flip_and_rotate_total [OF assms, of rotate_state flip_state] by auto
  have "wf_array x \<longrightarrow> wf_array y"
    using flip_and_rotate_wf [OF _ assms y] by blast
  with y s shape_last2 [OF assms] show ?thesis
    by (auto simp: turned_def)
qed

theorem flip_and_rotate_shape_witness:
  "2 \<le> ndim \<lparr>shape = [5, 2, 3], data = replicate 30 (0::int)\<rparr> \<and>
   wf_array \<lparr>shape = [5, 2, 3], data = replicate 30 (0::int)\<rparr> \<and>
   (\<exists>y. flip_and_rotate \<lparr>shape = [5, 2, 3], data = replicate 30 (0::int)\<rparr> 3 1 = Inr y \<and>
        shape y = [5, 3, 2] \<and> wf_array y)"
  using flip_and_rotate_shape [of "\<lparr>shape = [5, 2, 3], data = replicate 30 (0::int)\<rparr>" 3 1]
  by (simp add: ndim_def lead_def height_def width_def wf_array_def)

section \<open>Arguments outside their range\<close>

text \<open>
  C6, as the code has it. The primitive does not check its state arguments. On an array
  of at least two dimensions, a \<open>rotate_state\<close> outside \<open>{0, 1, 2, 3}\<close> or a \<open>flip_state\<close>
  outside \<open>{0, 1}\<close> raises nothing: the call returns the array that
  \<open>rotate_state mod 4\<close> and "flip only when \<open>flip_state = 1\<close>" give.
\<close>

theorem flip_and_rotate_unvalidated:
  fixes x :: "'a ndarray"
  assumes "2 \<le> ndim x"
    and "rotate_state \<notin> {0, 1, 2, 3} \<or> flip_state \<notin> {0, 1}"
  shows "\<exists>y. flip_and_rotate x rotate_state flip_state = Inr y \<and>
             flip_and_rotate x (rotate_state mod 4) (if flip_state = 1 then 1 else 0) = Inr y"
proof -
  obtain y where "flip_and_rotate x rotate_state flip_state = Inr y"
    using flip_and_rotate_total [OF assms(1)] by blast
  moreover have "flip_and_rotate x (rotate_state mod 4) (if flip_state = 1 then 1 else 0)
      = flip_and_rotate x rotate_state flip_state"
    using flip_and_rotate_no_flip [of flip_state x rotate_state]
    by (simp add: flip_and_rotate_mod)
  ultimately show ?thesis by simp
qed

theorem flip_and_rotate_unvalidated_witness:
  "2 \<le> ndim \<lparr>shape = [2, 2], data = [1, 2, 3, 4::int]\<rparr> \<and>
   (5::int) \<notin> {0, 1, 2, 3} \<and> (7::int) \<notin> {0, 1} \<and>
   (\<exists>y. flip_and_rotate \<lparr>shape = [2, 2], data = [1, 2, 3, 4::int]\<rparr> 5 7 = Inr y \<and>
        flip_and_rotate \<lparr>shape = [2, 2], data = [1, 2, 3, 4::int]\<rparr> 1 0 = Inr y)"
  using flip_and_rotate_unvalidated [of "\<lparr>shape = [2, 2], data = [1, 2, 3, 4::int]\<rparr>" 5 7]
  by (simp add: ndim_def)

text \<open>No invalid-argument condition is signalled: with \<open>rotate_state = 5\<close> and
  \<open>flip_state = 7\<close> the primitive returns the array rotated by one quarter turn.\<close>

theorem flip_and_rotate_validates_counterexample:
  "flip_and_rotate \<lparr>shape = [2, 2], data = [1, 2, 3, 4::int]\<rparr> 5 7
     = Inr \<lparr>shape = [2, 2], data = [2, 4, 1, 3]\<rparr>"
  by (simp add: eval_defs)

lemma flip_and_rotate_low_dim:
  "ndim x < 2 \<Longrightarrow> flip_and_rotate x k f = Inl ValueError"
  by (simp add: flip_and_rotate_def rot90_def)

text \<open>
  C10, as the code has it. For every array, every \<open>rotate_state\<close> and every \<open>flip_state\<close>
  the primitive does what it does for \<open>rotate_state mod 4\<close>, and a \<open>flip_state\<close> other than 1
  is no flip. It is total on the arrays of at least two dimensions, and on every array
  of fewer than two dimensions it raises \<^verbatim>\<open>ValueError\<close>, whatever the two states.
\<close>

theorem flip_and_rotate_periodic:
  "flip_and_rotate x rotate_state flip_state = flip_and_rotate x (rotate_state mod 4) flip_state \<and>
   (flip_state \<noteq> 1 \<longrightarrow>
      flip_and_rotate x rotate_state flip_state = flip_and_rotate x rotate_state 0) \<and>
   (2 \<le> ndim x \<longrightarrow> (\<exists>y. flip_and_rotate x rotate_state flip_state = Inr y)) \<and>
   (ndim x < 2 \<longrightarrow> flip_and_rotate x rotate_state flip_state = Inl ValueError)"
proof (intro conjI impI)
  show "flip_and_rotate x rotate_state flip_state = flip_and_rotate x (rotate_state mod 4) flip_state"
    by (simp add: flip_and_rotate_mod)
next
  assume "flip_state \<noteq> 1"
  then show "flip_and_rotate x rotate_state flip_state = flip_and_rotate x rotate_state 0"
    by (rule flip_and_rotate_no_flip)
next
  assume "2 \<le> ndim x"
  then show "\<exists>y. flip_and_rotate x rotate_state flip_state = Inr y"
    using flip_and_rotate_total [of x rotate_state flip_state] by blast
next
  assume "ndim x < 2"
  then show "flip_and_rotate x rotate_state flip_state = Inl ValueError"
    by (rule flip_and_rotate_low_dim)
qed

theorem flip_and_rotate_periodic_witness:
  "flip_and_rotate \<lparr>shape = [2, 2], data = [1, 2, 3, 4::int]\<rparr> (- 3) 2
     = flip_and_rotate \<lparr>shape = [2, 2], data = [1, 2, 3, 4::int]\<rparr> ((- 3) mod 4) 2 \<and>
   (2::int) \<noteq> 1 \<and>
   flip_and_rotate \<lparr>shape = [2, 2], data = [1, 2, 3, 4::int]\<rparr> (- 3) 2
     = flip_and_rotate \<lparr>shape = [2, 2], data = [1, 2, 3, 4::int]\<rparr> (- 3) 0 \<and>
   2 \<le> ndim \<lparr>shape = [2, 2], data = [1, 2, 3, 4::int]\<rparr> \<and>
   (\<exists>y. flip_and_rotate \<lparr>shape = [2, 2], data = [1, 2, 3, 4::int]\<rparr> (- 3) 2 = Inr y) \<and>
   ndim \<lparr>shape = [3], data = [1, 2, 3::int]\<rparr> < 2 \<and>
   flip_and_rotate \<lparr>shape = [3], data = [1, 2, 3::int]\<rparr> 5 1 = Inl ValueError"
proof -
  let ?x = "\<lparr>shape = [2, 2], data = [1, 2, 3, 4::int]\<rparr>"
  let ?v = "\<lparr>shape = [3], data = [1, 2, 3::int]\<rparr>"
  note t = flip_and_rotate_periodic [of ?x "- 3" 2]
  note u = flip_and_rotate_periodic [of ?v 5 1]
  have n: "2 \<le> ndim ?x" by (simp add: ndim_def)
  have m: "ndim ?v < 2" by (simp add: ndim_def)
  have d: "(2::int) \<noteq> 1" by simp
  from t have a: "flip_and_rotate ?x (- 3) 2 = flip_and_rotate ?x ((- 3) mod 4) 2"
    by (rule conjunct1)
  from t have b: "(2::int) \<noteq> 1 \<longrightarrow> flip_and_rotate ?x (- 3) 2 = flip_and_rotate ?x (- 3) 0"
    by (rule conjunct2 [THEN conjunct1])
  from t have c: "2 \<le> ndim ?x \<longrightarrow> (\<exists>y. flip_and_rotate ?x (- 3) 2 = Inr y)"
    by (rule conjunct2 [THEN conjunct2, THEN conjunct1])
  from u have e: "ndim ?v < 2 \<longrightarrow> flip_and_rotate ?v 5 1 = Inl ValueError"
    by (rule conjunct2 [THEN conjunct2, THEN conjunct2])
  from a d b [rule_format, OF d] n c [rule_format, OF n] m e [rule_format, OF m]
  show ?thesis by (intro conjI)
qed

text \<open>The primitive is not total on every array: on a one-dimensional array
  \<^verbatim>\<open>np.rot90\<close> raises \<^verbatim>\<open>ValueError\<close>, whatever the two states.\<close>

theorem flip_and_rotate_total_counterexample:
  "flip_and_rotate \<lparr>shape = [3], data = [1, 2, 3::int]\<rparr> 0 0 = Inl ValueError"
  by (simp add: flip_and_rotate_def rot90_def ndim_def)

section \<open>The seeded augmentation\<close>

lemma draw_states_result:
  "fst (draw_states np seed s) =
     (case default_rng np seed of
        Inl e \<Rightarrow> Inl e
      | Inr g \<Rightarrow> Inr (fst (integers np 0 4 g),
                     fst (integers np 0 2 (snd (integers np 0 4 g)))))"
  by (simp add: draw_states_def new_generator_def draw_def split: sum.split prod.split)

lemma augment_batch_result:
  "fst (augment_batch np patch target seed s) =
     (case fst (draw_states np seed s) of
        Inl e \<Rightarrow> Inl e
      | Inr (r, f) \<Rightarrow>
          and_then (flip_and_rotate patch r f)
            (\<lambda>p. and_then (flip_and_rotate target r f) (\<lambda>t. Inr (p, t))))"
  by (simp add: augment_batch_def and_then_def split: sum.split prod.split)

lemma draw_states_memory: "fst (draw_states np seed s) = fst (draw_states np seed s')"
  by (simp add: draw_states_result)

lemma augment_batch_memory:
  "fst (augment_batch np patch target seed s) = fst (augment_batch np patch target seed s')"
  by (simp add: augment_batch_result draw_states_memory [of np seed s s'])

lemma repeated_calls_replicate:
  "repeated_calls np patch target seed n s
     = replicate n (fst (augment_batch np patch target seed s'))"
proof (induction n arbitrary: s)
  case 0
  then show ?case by simp
next
  case (Suc n)
  obtain r s1 where c: "augment_batch np patch target seed s = (r, s1)"
    by (cases "augment_batch np patch target seed s")
  then have "r = fst (augment_batch np patch target seed s')"
    using augment_batch_memory [of np patch target seed s s'] by simp
  then show ?case using c Suc.IH [of s1] by simp
qed

lemma flip_and_rotate_Inr:
  fixes x :: "'a ndarray"
  shows "2 \<le> ndim x \<Longrightarrow> \<exists>y. flip_and_rotate x k f = Inr y"
  using flip_and_rotate_total [of x k f] by blast

lemma draw_states_Inr:
  "default_rng np seed = Inr g \<Longrightarrow> \<exists>r f. fst (draw_states np seed s) = Inr (r, f)"
  by (simp add: draw_states_result)

lemmas rng_defs = augment_batch_def draw_states_def new_generator_def draw_def digit_rng_def

text \<open>
  C1. A call of \<open>augment_batch\<close> that returns has applied one and the same pair
  (\<open>rotate_state\<close>, \<open>flip_state\<close>), the pair drawn from the seed, to the patch and to the
  target. With an accepted seed and an array of at least two dimensions passed as both
  patch and target (an index map, say), the call returns twice the same array.
\<close>

theorem augment_batch_joint_consistency:
  "(fst (augment_batch np patch target seed s) = Inr (p, t) \<longrightarrow>
      (\<exists>r f. fst (draw_states np seed s) = Inr (r, f) \<and>
             flip_and_rotate patch r f = Inr p \<and>
             flip_and_rotate target r f = Inr t)) \<and>
   (default_rng np seed = Inr g \<and> 2 \<le> ndim x \<longrightarrow>
      (\<exists>y. fst (augment_batch np x x seed s) = Inr (y, y)))"
proof (intro conjI impI)
  assume "fst (augment_batch np patch target seed s) = Inr (p, t)"
  then show "\<exists>r f. fst (draw_states np seed s) = Inr (r, f) \<and>
      flip_and_rotate patch r f = Inr p \<and> flip_and_rotate target r f = Inr t"
    by (auto simp: augment_batch_result and_then_def split: sum.splits)
next
  assume a: "default_rng np seed = Inr g \<and> 2 \<le> ndim x"
  then have g: "default_rng np seed = Inr g" and n: "2 \<le> ndim x" by simp_all
  obtain r f where d: "fst (draw_states np seed s) = Inr (r, f)"
    using draw_states_Inr [OF g, of s] by blast
  obtain y where "flip_and_rotate x r f = Inr y"
    using flip_and_rotate_Inr [OF n, of r f] by blast
  then have "fst (augment_batch np x x seed s) = Inr (y, y)"
    using d by (simp add: augment_batch_result and_then_def)
  then show "\<exists>y. fst (augment_batch np x x seed s) = Inr (y, y)" ..
qed

theorem augment_batch_joint_consistency_witness:
  "fst (augment_batch digit_rng \<lparr>shape = [2, 2], data = [1, 2, 3, 4::int]\<rparr>
          \<lparr>shape = [2, 2], data = [5, 6, 7, 8::int]\<rparr> 1 [])
     = Inr (\<lparr>shape = [2, 2], data = [2, 4, 1, 3]\<rparr>, \<lparr>shape = [2, 2], data = [6, 8, 5, 7]\<rparr>) \<and>
   (\<exists>r f. fst (draw_states digit_rng 1 []) = Inr (r, f) \<and>
      flip_and_rotate \<lparr>shape = [2, 2], data = [1, 2, 3, 4::int]\<rparr> r f
        = Inr \<lparr>shape = [2, 2], data = [2, 4, 1, 3]\<rparr> \<and>
      flip_and_rotate \<lparr>shape = [2, 2], data = [5, 6, 7, 8::int]\<rparr> r f
        = Inr \<lparr>shape = [2, 2], data = [6, 8, 5, 7]\<rparr>) \<and>
   default_rng digit_rng 1 = Inr 1 \<and>
   2 \<le> ndim \<lparr>shape = [2, 3], data = [0, 1, 2, 3, 4, 5::int]\<rparr> \<and>
   (\<exists>y. fst (augment_batch digit_rng \<lparr>shape = [2, 3], data = [0, 1, 2, 3, 4, 5::int]\<rparr>
               \<lparr>shape = [2, 3], data = [0, 1, 2, 3, 4, 5::int]\<rparr> 1 []) = Inr (y, y))"
proof -
  let ?p = "\<lparr>shape = [2, 2], data = [1, 2, 3, 4::int]\<rparr>"
  let ?t = "\<lparr>shape = [2, 2], data = [5, 6, 7, 8::int]\<rparr>"
  let ?x = "\<lparr>shape = [2, 3], data = [0, 1, 2, 3, 4, 5::int]\<rparr>"
  have run: "fst (augment_batch digit_rng ?p ?t 1 [])
      = Inr (\<lparr>shape = [2, 2], data = [2, 4, 1, 3]\<rparr>, \<lparr>shape = [2, 2], data = [6, 8, 5, 7]\<rparr>)"
    by (simp add: rng_defs eval_defs)
  have seed: "default_rng digit_rng 1 = Inr 1" by (simp add: digit_rng_def)
  have dims: "2 \<le> ndim ?x" by (simp add: ndim_def)
  note j = augment_batch_joint_consistency [of digit_rng ?p ?t 1 "[]"
      "\<lparr>shape = [2, 2], data = [2, 4, 1, 3]\<rparr>" "\<lparr>shape = [2, 2], data = [6, 8, 5, 7]\<rparr>" 1 ?x]
  from j run have first: "\<exists>r f. fst (draw_states digit_rng 1 []) = Inr (r, f) \<and>
      flip_and_rotate ?p r f = Inr \<lparr>shape = [2, 2], data = [2, 4, 1, 3]\<rparr> \<and>
      flip_and_rotate ?t r f = Inr \<lparr>shape = [2, 2], data = [6, 8, 5, 7]\<rparr>"
    by blast
  from j seed dims have second: "\<exists>y. fst (augment_batch digit_rng ?x ?x 1 []) = Inr (y, y)"
    by blast
  from run first seed dims second show ?thesis by (intro conjI)
qed

text \<open>
  C2. For a fixed seed and a fixed patch and target, the two states drawn and the result
  of \<open>augment_batch\<close> do not depend on the memory of the process, that is on the calls made
  before: every call builds its own generator. Any number of successive calls return the
  same result.
\<close>

theorem augment_batch_deterministic:
  "fst (draw_states np seed s) = fst (draw_states np seed s') \<and>
   fst (augment_batch np patch target seed s) = fst (augment_batch np patch target seed s') \<and>
   repeated_calls np patch target seed n s
     = replicate n (fst (augment_batch np patch target seed s'))"
  using draw_states_memory augment_batch_memory repeated_calls_replicate by (intro conjI)

text \<open>
  C5, as the code has it. \<open>augment_batch\<close> compares no shapes. With an accepted seed, a
  patch and a target of at least two dimensions each, whatever their shapes, the call
  returns the two arrays, each transformed on its own with the pair of states drawn.
\<close>

theorem augment_batch_any_shapes:
  fixes patch :: "'a ndarray" and target :: "'b ndarray"
  assumes "default_rng np seed = Inr g" "2 \<le> ndim patch" "2 \<le> ndim target"
  shows "\<exists>r f p t. fst (draw_states np seed s) = Inr (r, f) \<and>
           flip_and_rotate patch r f = Inr p \<and>
           flip_and_rotate target r f = Inr t \<and>
           fst (augment_batch np patch target seed s) = Inr (p, t)"
proof -
  obtain r f where d: "fst (draw_states np seed s) = Inr (r, f)"
    using draw_states_Inr [OF assms(1), of s] by blast
  obtain p where p: "flip_and_rotate patch r f = Inr p"
    using flip_and_rotate_Inr [OF assms(2), of r f] by blast
  obtain t where t: "flip_and_rotate target r f = Inr t"
    using flip_and_rotate_Inr [OF assms(3), of r f] by blast
  have "fst (augment_batch np patch target seed s) = Inr (p, t)"
    using d p t by (simp add: augment_batch_result and_then_def)
  with d p t show ?thesis by blast
qed

theorem augment_batch_any_shapes_witness:
  "default_rng digit_rng 1 = Inr 1 \<and>
   2 \<le> ndim \<lparr>shape = [2, 3], data = [1, 2, 3, 4, 5, 6::int]\<rparr> \<and>
   2 \<le> ndim \<lparr>shape = [2, 2], data = [5, 6, 7, 8::int]\<rparr> \<and>
   (\<exists>r f p t. fst (draw_states digit_rng 1 []) = Inr (r, f) \<and>
      flip_and_rotate \<lparr>shape = [2, 3], data = [1, 2, 3, 4, 5, 6::int]\<rparr> r f = Inr p \<and>
      flip_and_rotate \<lparr>shape = [2, 2], data = [5, 6, 7, 8::int]\<rparr> r f = Inr t \<and>
      fst (augment_batch digit_rng \<lparr>shape = [2, 3], data = [1, 2, 3, 4, 5, 6::int]\<rparr>
             \<lparr>shape = [2, 2], data = [5, 6, 7, 8::int]\<rparr> 1 []) = Inr (p, t))"
proof -
  let ?p = "\<lparr>shape = [2, 3], data = [1, 2, 3, 4, 5, 6::int]\<rparr>"
  let ?t = "\<lparr>shape = [2, 2], data = [5, 6, 7, 8::int]\<rparr>"
  have seed: "default_rng digit_rng 1 = Inr 1" by (simp add: digit_rng_def)
  have dp: "2 \<le> ndim ?p" by (simp add: ndim_def)
  have dt: "2 \<le> ndim ?t" by (simp add: ndim_def)
  from seed dp dt augment_batch_any_shapes [OF seed dp dt, of "[]"] show ?thesis
    by (intro conjI)
qed

text \<open>A 2 by 3 patch with a 2 by 2 target: no error, a 3 by 2 array and a 2 by 2 array
  come back.\<close>

theorem augment_batch_shape_mismatch_counterexample:
  "fst (augment_batch digit_rng \<lparr>shape = [2, 3], data = [1, 2, 3, 4, 5, 6::int]\<rparr>
          \<lparr>shape = [2, 2], data = [5, 6, 7, 8::int]\<rparr> 1 [])
     = Inr (\<lparr>shape = [3, 2], data = [3, 6, 2, 5, 1, 4]\<rparr>, \<lparr>shape = [2, 2], data = [6, 8, 5, 7]\<rparr>)"
  by (simp add: rng_defs eval_defs)

end
